theory Spec2Isabelle
  imports Complex_Main "HOL-Library.Multiset"
begin

section \<open>Data model of \<^verbatim>\<open>sequencing_logic.py\<close>\<close>

text \<open>
  The sequencer works on pandas data frames. A frame is modelled as the list of its rows,
  in positional order; a row is a record with one field per column, named as the column.

  \<^item> A timestamp (column \<^verbatim>\<open>Start_Date\<close>) is an integer count of nanoseconds, as pandas
    stores it. The bounds of the 64-bit representation are not modelled.
  \<^item> The floating-point columns (\<^verbatim>\<open>EstRate\<close>, \<^verbatim>\<open>Cost_Per_Mile\<close>, \<^verbatim>\<open>Segment_Cost\<close>,
    \<^verbatim>\<open>Miles\<close>) are exact rationals: rounding is not modelled. Where the source divides,
    the zero divisor is a branch of the model.
  \<^item> The column \<^verbatim>\<open>Cumulative_Percent\<close> plays no part in what is proved and is left out.
\<close>

type_synonym timestamp = int

definition timedelta :: "int \<Rightarrow> int" where
  \<comment> \<open>\<^verbatim>\<open>timedelta(days=d)\<close>, in nanoseconds\<close>
  "timedelta days = days * 86400000000000"

record segment =
  Segment_Name :: string
  Start_Date :: timestamp
  Duration :: int
  EstRate :: rat
  Cost_Per_Mile :: rat
  Segment_Cost :: rat
  Miles :: rat

record scheduled = segment +
  Actual_Start :: timestamp
  Actual_End :: timestamp

record progress = scheduled +
  Cumulative_Miles :: rat
  Cumulative_Cost :: rat

text \<open>
  The milestone loop adds two columns per threshold, named after the percentage, each
  holding one value in every row (or \<^verbatim>\<open>None\<close>). They are kept beside the rows.
\<close>

record milestone =
  percent :: int
  Day :: "timestamp option"
  Cost :: "rat option"

record frame =
  rows :: "progress list"
  milestones :: "milestone list"

text \<open>The exceptions that the modelled paths can raise, both raised inside pandas.\<close>

datatype error =
  IntCastingNaNError  \<comment> \<open>\<^verbatim>\<open>astype(int)\<close> on a column holding a non-finite value\<close>
  | ValueError  \<comment> \<open>\<^verbatim>\<open>idxmax\<close> of an empty column\<close>

text \<open>
  The result of a scalar floating-point division: numpy does not raise on a zero divisor
  but yields an infinity or NaN.
\<close>

datatype float64 = Finite rat | PosInf | NegInf | NaN

definition float_div :: "rat \<Rightarrow> rat \<Rightarrow> float64" where
  "float_div a b =
     (if b \<noteq> 0 then Finite (a / b)
      else if 0 < a then PosInf
      else if a < 0 then NegInf
      else NaN)"

section \<open>The sequencer object and \<^verbatim>\<open>apply_parameters\<close>\<close>

record sequencer =
  original_data :: "segment list"
  data :: "segment list"

definition init :: "segment list \<Rightarrow> sequencer" where
  "init frame0 = \<lparr>original_data = frame0, data = frame0\<rparr>"

definition apply_cost_threshold :: "rat option \<Rightarrow> sequencer \<Rightarrow> sequencer" where
  "apply_cost_threshold cost_threshold self =
     (case cost_threshold of
        None \<Rightarrow> self
      | Some c \<Rightarrow> self\<lparr>data := filter (\<lambda>r. Segment_Cost r \<le> c) (data self)\<rparr>)"

text \<open>
  \<^verbatim>\<open>apply_parameters\<close> assigns to \<^verbatim>\<open>self.data\<close> step by step, so the model returns the
  object as it stands when the method returns or raises. The only raise is the integer
  cast of the recomputed durations: a rate of zero makes \<^verbatim>\<open>Miles / EstRate\<close> non-finite.
\<close>

definition apply_parameters ::
  "int \<Rightarrow> rat \<Rightarrow> rat option \<Rightarrow> sequencer \<Rightarrow> (error + unit) \<times> sequencer" where
  "apply_parameters start_date_offset production_multiplier cost_threshold self0 =
     (let self1 = self0\<lparr>data := original_data self0\<rparr>;
          self2 = (if start_date_offset \<noteq> 0
                   then self1\<lparr>data := map (\<lambda>r. r\<lparr>Start_Date := Start_Date r + timedelta start_date_offset\<rparr>)
                                           (data self1)\<rparr>
                   else self1)
      in if production_multiplier \<noteq> 1
         then (let self3 = self2\<lparr>data := map (\<lambda>r. r\<lparr>EstRate := EstRate r * production_multiplier\<rparr>)
                                           (data self2)\<rparr>
               in if list_ex (\<lambda>r. EstRate r = 0) (data self3)
                  then (Inl IntCastingNaNError, self3)
                  else (Inr (), apply_cost_threshold cost_threshold
                          (self3\<lparr>data := map (\<lambda>r. r\<lparr>Duration := \<lceil>Miles r / EstRate r\<rceil>\<rparr>) (data self3)\<rparr>)))
         else (Inr (), apply_cost_threshold cost_threshold self2))"

section \<open>Sorting\<close>

text \<open>
  \<^verbatim>\<open>sort_values\<close> is called with pandas' default algorithm. pandas sorts the key column
  with numpy's \<^verbatim>\<open>argsort\<close> and takes the rows in the order of the indices returned. The
  algorithm is not part of this repository, so \<open>argsort\<close> is a parameter of the model;
  \<open>argsort_contract\<close> is what every sorting algorithm guarantees: the indices are a
  permutation of the positions and the keys read in that order ascend.
\<close>

definition sort_values :: "('k list \<Rightarrow> nat list) \<Rightarrow> ('r \<Rightarrow> 'k) \<Rightarrow> 'r list \<Rightarrow> 'r list" where
  "sort_values argsort key df = map (\<lambda>i. df ! i) (argsort (map key df))"

definition argsort_contract :: "('k::linorder list \<Rightarrow> nat list) \<Rightarrow> bool" where
  "argsort_contract argsort \<longleftrightarrow>
     (\<forall>ks. mset (argsort ks) = mset [0..<length ks] \<and> sorted (map (\<lambda>i. ks ! i) (argsort ks)))"

definition stable_argsort :: "'k::linorder list \<Rightarrow> nat list" where
  \<comment> \<open>one algorithm that meets the contract: insertion sort of the (key, position) pairs\<close>
  "stable_argsort ks = map snd (sort_key fst (zip ks [0..<length ks]))"

section \<open>Packing: the date loop of \<^verbatim>\<open>_calculate_schedule\<close>\<close>

fun stamp_rows :: "timestamp \<Rightarrow> segment list \<Rightarrow> scheduled list" where
  "stamp_rows current_date [] = []"
| "stamp_rows current_date (row # rest) =
     (let actual_start = max (Start_Date row) current_date;
          end_date = actual_start + timedelta (Duration row)
      in segment.extend row (scheduled.fields actual_start end_date) # stamp_rows end_date rest)"

definition assign_dates :: "segment list \<Rightarrow> scheduled list" where
  \<comment> \<open>on an empty frame \<^verbatim>\<open>min()\<close> is NaT and the loop body never runs\<close>
  "assign_dates result =
     (case result of
        [] \<Rightarrow> []
      | _ # _ \<Rightarrow> stamp_rows (min_list (map Start_Date result)) result)"

section \<open>Cumulative metrics and milestones\<close>

fun cumsum_from :: "rat \<Rightarrow> rat list \<Rightarrow> rat list" where
  "cumsum_from acc [] = []"
| "cumsum_from acc (x # xs) = (acc + x) # cumsum_from (acc + x) xs"

definition cumsum :: "rat list \<Rightarrow> rat list" where
  "cumsum xs = cumsum_from 0 xs"

definition add_cumulative :: "scheduled list \<Rightarrow> progress list" where
  "add_cumulative result =
     map (\<lambda>(r, m, c). scheduled.extend r (progress.fields m c))
         (zip result (zip (cumsum (map Miles result)) (cumsum (map Segment_Cost result))))"

definition idxmax :: "bool list \<Rightarrow> error + nat" where
  \<comment> \<open>label of the first maximum; after \<^verbatim>\<open>reset_index\<close> the labels are the positions\<close>
  "idxmax s =
     (if s = [] then Inl ValueError
      else Inr (if True \<in> set s then length (takeWhile (\<lambda>b. \<not> b) s) else 0))"

fun milestone_loop :: "progress list \<Rightarrow> rat \<Rightarrow> rat list \<Rightarrow> error + milestone list" where
  "milestone_loop result total_miles [] = Inr []"
| "milestone_loop result total_miles (m # ms) =
     (let milestone_miles = total_miles * m
      in case idxmax (map (\<lambda>r. milestone_miles \<le> Cumulative_Miles r) result) of
           Inl e \<Rightarrow> Inl e
         | Inr milestone_idx \<Rightarrow>
             (let cols =
                    (if milestone_idx < length result
                     then \<lparr>percent = \<lfloor>m * 100\<rfloor>,
                           Day = Some (Actual_End (result ! milestone_idx)),
                           Cost = Some (Cumulative_Cost (result ! milestone_idx))\<rparr>
                     else \<lparr>percent = \<lfloor>m * 100\<rfloor>, Day = None, Cost = None\<rparr>)
              in case milestone_loop result total_miles ms of
                   Inl e \<Rightarrow> Inl e
                 | Inr more_cols \<Rightarrow> Inr (cols # more_cols)))"

definition calculate_cumulative_metrics ::
  "(timestamp list \<Rightarrow> nat list) \<Rightarrow> scheduled list \<Rightarrow> error + frame" where
  "calculate_cumulative_metrics argsort df =
     (let result = add_cumulative (sort_values argsort Actual_Start df);
          total_miles = sum_list (map Miles result)
      in case milestone_loop result total_miles [1 / 2, 3 / 4, 1] of
           Inl e \<Rightarrow> Inl e
         | Inr cols \<Rightarrow> Inr \<lparr>rows = result, milestones = cols\<rparr>)"

definition calculate_schedule ::
  "(timestamp list \<Rightarrow> nat list) \<Rightarrow> segment list \<Rightarrow> error + frame" where
  "calculate_schedule argsort sequenced_data =
     calculate_cumulative_metrics argsort (assign_dates sequenced_data)"

definition sequence_by_start_date ::
  "(timestamp list \<Rightarrow> nat list) \<Rightarrow> sequencer \<Rightarrow> error + frame" where
  "sequence_by_start_date argsort self =
     calculate_schedule argsort (sort_values argsort Start_Date (data self))"

definition sequence_by_lowest_cost ::
  "(rat list \<Rightarrow> nat list) \<Rightarrow> (timestamp list \<Rightarrow> nat list) \<Rightarrow> sequencer \<Rightarrow> error + frame" where
  "sequence_by_lowest_cost argsort_cost argsort self =
     calculate_schedule argsort (sort_values argsort_cost Segment_Cost (data self))"

section \<open>Early efficiency in \<^verbatim>\<open>get_pros_cons_analysis\<close>\<close>

definition early_efficiency :: "progress list \<Rightarrow> float64" where
  "early_efficiency method =
     (let early = take (length method div 4) method
      in float_div (sum_list (map Miles early)) (sum_list (map Segment_Cost early)))"

section \<open>The example of the specification\<close>

text \<open>
  Three segments: A (start day 0, 10 days, 100000), B (start day 0, 5 days, 50000) and
  C (start day 20, 5 days, 30000), here with distances 10, 5 and 5.
\<close>

definition seg :: "string \<Rightarrow> int \<Rightarrow> int \<Rightarrow> rat \<Rightarrow> rat \<Rightarrow> segment" where
  "seg name start_day days cost distance =
     \<lparr>Segment_Name = name, Start_Date = timedelta start_day, Duration = days, EstRate = 1,
      Cost_Per_Mile = cost / distance, Segment_Cost = cost, Miles = distance\<rparr>"

definition example_segments :: "segment list" where
  "example_segments =
     [seg ''A'' 0 10 100000 10, seg ''B'' 0 5 50000 5, seg ''C'' 20 5 30000 5]"

definition example_by_cost :: "segment list" where
  "example_by_cost =
     [seg ''C'' 20 5 30000 5, seg ''B'' 0 5 50000 5, seg ''A'' 0 10 100000 10]"

section \<open>The scenario adjuster, as the specification words it\<close>

text \<open>
  The two definitions of this section follow the specification, not the source: shift
  every planned start, re-rate and recompute the duration as a ceiling of at least 1 when
  the multiplier is not 1, then drop what costs more than the ceiling.
\<close>

definition spec_adjust_segment :: "int \<Rightarrow> rat \<Rightarrow> segment \<Rightarrow> segment" where
  "spec_adjust_segment offsetDays rateMultiplier s =
     (let shifted = s\<lparr>Start_Date := Start_Date s + timedelta offsetDays\<rparr>
      in if rateMultiplier \<noteq> 1
         then (let newRate = EstRate s * rateMultiplier
               in shifted\<lparr>EstRate := newRate, Duration := max 1 \<lceil>Miles s / newRate\<rceil>\<rparr>)
         else shifted)"


section \<open>Two more inputs\<close>

text \<open>
  A schedule of one segment whose distance is negative (the distance column is a float
  column and nothing in the source checks its sign), and the schedule that
  \<^verbatim>\<open>sequence_by_start_date\<close> returns for the three segments of the example.
\<close>

definition negative_distance_schedule :: "scheduled list" where
  "negative_distance_schedule = assign_dates [seg ''N'' 0 3 5 (- 1)]"

definition example_schedule :: "progress list" where
  "example_schedule =
     (case sequence_by_start_date stable_argsort (init example_segments) of
        Inl e \<Rightarrow> []
      | Inr fr \<Rightarrow> rows fr)"

section \<open>Sorting: what the contract gives\<close>

text \<open>
  The contract makes \<open>sort_values\<close> return the rows of the frame, each once, with ascending
  keys. It says nothing about the order of rows with equal keys; where the keys already
  ascend strictly, the frame comes back as it was.
\<close>

lemmas ext_simps = segment.defs scheduled.defs progress.defs

lemmas example_simps = example_segments_def example_by_cost_def seg_def timedelta_def
  assign_dates_def Let_def ext_simps

lemma stable_argsort_contract: "argsort_contract (stable_argsort :: 'k::linorder list \<Rightarrow> nat list)"
proof -
  have "mset (stable_argsort ks) = mset [0..<length ks] \<and>
        sorted (map (\<lambda>i. ks ! i) (stable_argsort ks))" for ks :: "'k list"
  proof
    have "mset (map snd (sort_key fst (zip ks [0..<length ks]))) = mset (map snd (zip ks [0..<length ks]))"
      by (simp only: mset_map mset_sort)
    also have "map snd (zip ks [0..<length ks]) = [0..<length ks]"
      by simp
    finally show "mset (stable_argsort ks) = mset [0..<length ks]"
      unfolding stable_argsort_def .
    have "\<forall>p \<in> set (zip ks [0..<length ks]). ks ! snd p = fst p"
      by (auto simp: set_zip)
    then have "map (\<lambda>i. ks ! i) (stable_argsort ks) = map fst (sort_key fst (zip ks [0..<length ks]))"
      unfolding stable_argsort_def by simp
    then show "sorted (map (\<lambda>i. ks ! i) (stable_argsort ks))"
      by simp
  qed
  then show ?thesis
    unfolding argsort_contract_def by blast
qed

lemma argsort_indices:
  assumes "argsort_contract argsort"
  shows "set (argsort ks) = {0..<length ks}" and "distinct (argsort ks)"
    and "length (argsort ks) = length ks"
proof -
  from assms have m: "mset (argsort ks) = mset [0..<length ks]"
    unfolding argsort_contract_def by blast
  from m show "set (argsort ks) = {0..<length ks}"
    by (metis set_mset_mset set_upt)
  from m show "distinct (argsort ks)"
    by (metis distinct_upt mset_eq_imp_distinct_iff)
  from m show "length (argsort ks) = length ks"
    by (metis length_upt minus_nat.diff_0 size_mset)
qed

lemma mset_sort_values:
  assumes "argsort_contract argsort"
  shows "mset (sort_values argsort key df) = mset df"
proof -
  from assms have "mset (argsort (map key df)) = mset [0..<length df]"
    unfolding argsort_contract_def by (metis length_map)
  then have "mset (map (\<lambda>i. df ! i) (argsort (map key df))) = mset (map (\<lambda>i. df ! i) [0..<length df])"
    by (metis mset_map)
  then show ?thesis
    unfolding sort_values_def by (simp add: map_nth)
qed

lemma sorted_sort_values:
  assumes "argsort_contract argsort"
  shows "sorted (map key (sort_values argsort key df))"
proof -
  let ?ks = "map key df"
  from assms have s: "sorted (map (\<lambda>i. ?ks ! i) (argsort ?ks))"
    unfolding argsort_contract_def by blast
  have "\<forall>i \<in> set (argsort ?ks). ?ks ! i = key (df ! i)"
    using argsort_indices(1)[OF assms, of ?ks] by simp
  then have "map (\<lambda>i. ?ks ! i) (argsort ?ks) = map key (sort_values argsort key df)"
    unfolding sort_values_def by simp
  with s show ?thesis by simp
qed

lemma sort_values_Nil:
  assumes "argsort_contract argsort"
  shows "sort_values argsort key [] = []"
  using mset_sort_values[OF assms, of key "[]"] by simp


lemma sort_values_strict:
  assumes "argsort_contract argsort" and "sorted_wrt (<) (map key df)"
  shows "sort_values argsort key df = df"
proof -
  let ?ks = "map key df"
  let ?idx = "argsort ?ks"
  from assms(2) have ks: "sorted ?ks" "distinct ?ks"
    by (simp_all add: strict_sorted_iff)
  have inj: "inj_on (\<lambda>i. ?ks ! i) {0..<length ?ks}"
    using ks(2) by (intro inj_on_nth) simp_all
  have idx: "set ?idx = {0..<length ?ks}" "distinct ?idx"
    using argsort_indices[OF assms(1), of ?ks] by simp_all
  have "sorted (map (\<lambda>i. ?ks ! i) ?idx)"
    using assms(1) unfolding argsort_contract_def by blast
  moreover have "distinct (map (\<lambda>i. ?ks ! i) ?idx)"
    using idx inj by (simp add: distinct_map)
  moreover have "set (map (\<lambda>i. ?ks ! i) ?idx) = set ?ks"
    using idx(1) nth_image[of "length ?ks" ?ks] by (simp only: set_map take_all order_refl)
  ultimately have "map (\<lambda>i. ?ks ! i) ?idx = ?ks"
    using ks by (intro sorted_distinct_set_unique) simp_all
  then have "map (\<lambda>i. ?ks ! i) ?idx = map (\<lambda>i. ?ks ! i) [0..<length ?ks]"
    by (simp only: map_nth)
  then have "?idx = [0..<length ?ks]"
    using inj idx(1) by (subst (asm) inj_on_map_eq_map) simp_all
  then show ?thesis
    unfolding sort_values_def by (simp add: map_nth)
qed

text \<open>
  Where the keys of the frame are pairwise distinct there is one ascending order, so every
  algorithm that meets the contract returns what the stable insertion sort returns.
\<close>

lemma sort_values_distinct_keys:
  assumes "argsort_contract argsort" and "distinct (map key df)"
  shows "sort_values argsort key df = sort_key key df"
proof -
  let ?ys = "sort_values argsort key df"
  have m: "mset ?ys = mset df"
    by (rule mset_sort_values[OF assms(1)])
  have s: "sorted (map key ?ys)"
    by (rule sorted_sort_values[OF assms(1)])
  have "mset (map key ?ys) = mset (map key df)"
    using m by (metis mset_map)
  with assms(2) have d: "distinct (map key ?ys)"
    by (metis mset_eq_imp_distinct_iff)
  have one: "filter (\<lambda>x. key k = key x) zs = [k]" if "k \<in> set zs" "distinct (map key zs)" for k zs
    using that
  proof (induction zs)
    case Nil
    then show ?case by simp
  next
    case (Cons z zs)
    show ?case
    proof (cases "k = z")
      case True
      with Cons.prems(2) have "filter (\<lambda>x. key k = key x) zs = []"
        by (auto simp: filter_empty_conv)
      with True show ?thesis by simp
    next
      case False
      with Cons.prems(1) have kz: "k \<in> set zs"
        by simp
      then have "key k \<in> key ` set zs"
        by (rule imageI)
      with Cons.prems(2) have "key k \<noteq> key z"
        by auto
      with kz Cons show ?thesis by simp
    qed
  qed
  have "sort_key key df = ?ys"
  proof (rule properties_for_sort_key[OF m _ s])
    fix k assume k: "k \<in> set ?ys"
    then have "k \<in> set df"
      using m by (metis mset_eq_setD)
    with one[OF k d] one[OF this assms(2)]
    show "filter (\<lambda>x. key k = key x) ?ys = filter (\<lambda>x. key k = key x) df"
      by simp
  qed
  then show ?thesis by simp
qed

section \<open>The packer\<close>

text \<open>
  Both sequencing operations sort the working set and hand the sorted frame to
  \<^verbatim>\<open>_calculate_schedule\<close>, whose date loop is \<open>assign_dates\<close>.
\<close>

lemma sequence_by_rule:
  "sequence_by_start_date argsort self =
     calculate_cumulative_metrics argsort
       (assign_dates (sort_values argsort Start_Date (data self)))"
  "sequence_by_lowest_cost argsort_cost argsort self =
     calculate_cumulative_metrics argsort
       (assign_dates (sort_values argsort_cost Segment_Cost (data self)))"
  by (simp_all add: sequence_by_start_date_def sequence_by_lowest_cost_def calculate_schedule_def)

lemma by_cost_order:
  "sort_values stable_argsort Segment_Cost example_segments = example_by_cost"
  by code_simp

lemma length_stamp_rows: "length (stamp_rows cur rs) = length rs"
  by (induction rs arbitrary: cur) (simp_all add: Let_def)

lemma stamp_rows_truncate:
  "i < length rs \<Longrightarrow> segment.truncate (stamp_rows cur rs ! i) = rs ! i"
proof (induction rs arbitrary: cur i)
  case Nil
  then show ?case by simp
next
  case (Cons r rs)
  then show ?case
    by (cases i) (simp_all add: Let_def ext_simps)
qed

lemma stamp_rows_end:
  "i < length rs \<Longrightarrow>
   Actual_End (stamp_rows cur rs ! i) =
     Actual_Start (stamp_rows cur rs ! i) + timedelta (Duration (rs ! i))"
proof (induction rs arbitrary: cur i)
  case Nil
  then show ?case by simp
next
  case (Cons r rs)
  then show ?case
    by (cases i) (simp_all add: Let_def ext_simps)
qed

lemma stamp_rows_first:
  "rs \<noteq> [] \<Longrightarrow> Actual_Start (stamp_rows cur rs ! 0) = max (Start_Date (rs ! 0)) cur"
  by (cases rs) (simp_all add: Let_def ext_simps)

lemma stamp_rows_next:
  "Suc i < length rs \<Longrightarrow>
   Actual_Start (stamp_rows cur rs ! Suc i) =
     max (Start_Date (rs ! Suc i)) (Actual_End (stamp_rows cur rs ! i))"
proof (induction rs arbitrary: cur i)
  case Nil
  then show ?case by simp
next
  case (Cons r rs)
  let ?e = "max (Start_Date r) cur + timedelta (Duration r)"
  show ?case
  proof (cases i)
    case 0
    with Cons.prems have "rs \<noteq> []" by auto
    from stamp_rows_first[OF this, of ?e] 0 show ?thesis
      by (simp add: Let_def ext_simps)
  next
    case (Suc j)
    with Cons.prems have "Suc j < length rs" by simp
    from Cons.IH[OF this, of ?e] Suc show ?thesis
      by (simp add: Let_def)
  qed
qed

lemma stamp_rows_nth:
  assumes "i < length rs"
  shows "segment.truncate (stamp_rows cur rs ! i) = rs ! i \<and>
   Actual_Start (stamp_rows cur rs ! i) =
     max (Start_Date (rs ! i)) (if i = 0 then cur else Actual_End (stamp_rows cur rs ! (i - 1))) \<and>
   Actual_End (stamp_rows cur rs ! i) =
     Actual_Start (stamp_rows cur rs ! i) + timedelta (Duration (rs ! i))"
proof (cases i)
  case 0
  with assms have "rs \<noteq> []" by auto
  from stamp_rows_first[OF this, of cur] stamp_rows_truncate[OF assms, of cur]
    stamp_rows_end[OF assms, of cur] 0
  show ?thesis by simp
next
  case (Suc j)
  with assms have "Suc j < length rs" by simp
  from stamp_rows_next[OF this, of cur] stamp_rows_truncate[OF assms, of cur]
    stamp_rows_end[OF assms, of cur] Suc
  show ?thesis by simp
qed

lemma length_assign_dates: "length (assign_dates rs) = length rs"
  by (cases rs) (simp_all add: assign_dates_def length_stamp_rows del: min_list.simps stamp_rows.simps)

lemma assign_dates_eq_Nil: "assign_dates rs = [] \<longleftrightarrow> rs = []"
  using length_assign_dates[of rs] by (cases rs) auto

lemma assign_dates_stamp:
  assumes "rs \<noteq> []"
  shows "assign_dates rs = stamp_rows (Min (set (map Start_Date rs))) rs"
proof -
  from assms have "min_list (map Start_Date rs) = Min (set (map Start_Date rs))"
    by (intro min_list_Min) simp
  moreover from assms have "assign_dates rs = stamp_rows (min_list (map Start_Date rs)) rs"
    unfolding assign_dates_def by (cases rs) (simp_all del: min_list.simps stamp_rows.simps)
  ultimately show ?thesis by simp
qed

lemma start_floor_row:
  assumes "r \<in> set (assign_dates rs)"
  shows "Start_Date r \<le> Actual_Start r"
proof -
  from assms obtain i where i: "i < length rs" "r = assign_dates rs ! i"
    unfolding in_set_conv_nth length_assign_dates by auto
  then have ne: "rs \<noteq> []" by auto
  let ?p = "stamp_rows (Min (set (map Start_Date rs))) rs"
  from stamp_rows_nth[OF i(1), of "Min (set (map Start_Date rs))"]
  have "Start_Date (segment.truncate (?p ! i)) = Start_Date (rs ! i)"
    and "Start_Date (rs ! i) \<le> Actual_Start (?p ! i)"
    by simp_all
  then show ?thesis
    using i(2) ne by (simp add: assign_dates_stamp ext_simps)
qed

lemma no_overlap_adjacent:
  assumes "Suc i < length (assign_dates rs)"
  shows "Actual_End (assign_dates rs ! i) \<le> Actual_Start (assign_dates rs ! Suc i)"
proof -
  from assms have i: "Suc i < length rs" and ne: "rs \<noteq> []"
    by (auto simp: length_assign_dates)
  from stamp_rows_nth[OF i, of "Min (set (map Start_Date rs))"] show ?thesis
    using ne by (simp add: assign_dates_stamp)
qed



text \<open>
  Claim C3. In the packed schedule no segment starts before its planned start, and in
  packed order every segment ends no later than the next one starts.
\<close>

theorem packed_schedule_invariants:
  "(\<forall>r \<in> set (assign_dates sequenced). Start_Date r \<le> Actual_Start r) \<and>
   (\<forall>i. Suc i < length (assign_dates sequenced) \<longrightarrow>
        Actual_End (assign_dates sequenced ! i) \<le> Actual_Start (assign_dates sequenced ! Suc i))"
  using start_floor_row no_overlap_adjacent by blast

theorem packed_schedule_invariants_witness:
  "Start_Date (assign_dates example_by_cost ! 1) \<le> Actual_Start (assign_dates example_by_cost ! 1) \<and>
   Suc 0 < length (assign_dates example_by_cost) \<and>
   Actual_End (assign_dates example_by_cost ! 0) \<le> Actual_Start (assign_dates example_by_cost ! Suc 0)"
proof -
  have len: "Suc 0 < length (assign_dates example_by_cost)"
    by (simp add: example_simps)
  then have "assign_dates example_by_cost ! 1 \<in> set (assign_dates example_by_cost)"
    by (intro nth_mem) simp
  with packed_schedule_invariants[of example_by_cost] len show ?thesis
    by simp
qed

text \<open>
  With positive durations the actual starts ascend strictly along the packed order.
\<close>

lemma timedelta_pos: "0 < d \<Longrightarrow> 0 < timedelta d"
  by (simp add: timedelta_def)

lemma assign_dates_strictly_ascending:
  assumes "\<forall>r \<in> set sequenced. 0 < Duration r"
  shows "sorted_wrt (<) (map Actual_Start (assign_dates sequenced))"
proof -
  let ?p = "assign_dates sequenced"
  have "Actual_Start (?p ! i) < Actual_Start (?p ! Suc i)" if "Suc i < length ?p" for i
  proof -
    from that have i: "i < length sequenced" and ne: "sequenced \<noteq> []"
      by (auto simp: length_assign_dates)
    from stamp_rows_end[OF i, of "Min (set (map Start_Date sequenced))"] ne
    have "Actual_End (?p ! i) = Actual_Start (?p ! i) + timedelta (Duration (sequenced ! i))"
      by (simp add: assign_dates_stamp)
    moreover from i assms have "0 < timedelta (Duration (sequenced ! i))"
      by (intro timedelta_pos) simp
    moreover note no_overlap_adjacent[OF that]
    ultimately show ?thesis by simp
  qed
  then show ?thesis
    by (simp add: sorted_wrt_iff_nth_Suc_transp)
qed

section \<open>Cumulative metrics\<close>

lemma length_cumsum_from: "length (cumsum_from acc xs) = length xs"
  by (induction xs arbitrary: acc) simp_all





lemma length_cumsum: "length (cumsum xs) = length xs"
  by (simp add: cumsum_def length_cumsum_from)

lemma length_add_cumulative: "length (add_cumulative rs) = length rs"
  by (simp add: add_cumulative_def length_cumsum)

lemma add_cumulative_nth:
  assumes "i < length rs"
  shows "scheduled.truncate (add_cumulative rs ! i) = rs ! i"
    and "Cumulative_Miles (add_cumulative rs ! i) = cumsum (map Miles rs) ! i"
    and "Cumulative_Cost (add_cumulative rs ! i) = cumsum (map Segment_Cost rs) ! i"
  using assms by (simp_all add: add_cumulative_def length_cumsum ext_simps)



lemma map_truncate_add_cumulative: "map scheduled.truncate (add_cumulative rs) = rs"
  by (rule nth_equalityI) (simp_all add: length_add_cumulative add_cumulative_nth)

lemma add_cumulative_columns:
  assumes "i < length rs"
  shows "Miles (add_cumulative rs ! i) = Miles (rs ! i)"
    and "Segment_Cost (add_cumulative rs ! i) = Segment_Cost (rs ! i)"
    and "Start_Date (add_cumulative rs ! i) = Start_Date (rs ! i)"
    and "Actual_Start (add_cumulative rs ! i) = Actual_Start (rs ! i)"
    and "Actual_End (add_cumulative rs ! i) = Actual_End (rs ! i)"
  using assms by (simp_all add: add_cumulative_def length_cumsum ext_simps)


lemma milestone_loop_empty:
  "ms \<noteq> [] \<Longrightarrow> milestone_loop [] tot ms = Inl ValueError"
  by (cases ms) (simp_all add: idxmax_def)


lemma calculate_cumulative_metrics_empty:
  assumes "argsort_contract argsort"
  shows "calculate_cumulative_metrics argsort [] = Inl ValueError"
  by (simp add: calculate_cumulative_metrics_def sort_values_Nil[OF assms] add_cumulative_def
      cumsum_def idxmax_def)


text \<open>
  The frame that \<^verbatim>\<open>_calculate_schedule\<close> returns is sorted once more, by
  \<^verbatim>\<open>Actual_Start\<close>. With positive durations that changes nothing: the rows returned are
  the packed rows, in packed order, with the cumulative columns added.
\<close>

lemma returned_rows_in_packed_order:
  assumes "argsort_contract argsort" and "\<forall>r \<in> set sequenced. 0 < Duration r"
    and "calculate_schedule argsort sequenced = Inr fr"
  shows "map scheduled.truncate (rows fr) = assign_dates sequenced"
proof -
  have "sort_values argsort Actual_Start (assign_dates sequenced) = assign_dates sequenced"
    using assms(1) assign_dates_strictly_ascending[OF assms(2)] by (rule sort_values_strict)
  with assms(3) have "rows fr = add_cumulative (assign_dates sequenced)"
    by (auto simp: calculate_schedule_def calculate_cumulative_metrics_def Let_def split: sum.splits)
  then show ?thesis
    by (simp add: map_truncate_add_cumulative)
qed

text \<open>
  Claim C4. On an empty working set both sequencing operations fail: no frame is returned.
  The exception is the \<^verbatim>\<open>ValueError\<close> that \<^verbatim>\<open>idxmax\<close> raises on the empty column of the
  first milestone; the source has no exception class of its own.
\<close>

theorem empty_working_set_fails:
  assumes "argsort_contract argsort" and "argsort_contract argsort_cost" and "data self = []"
  shows "sequence_by_start_date argsort self = Inl ValueError \<and>
         sequence_by_lowest_cost argsort_cost argsort self = Inl ValueError"
  using assms
  by (simp add: sequence_by_start_date_def sequence_by_lowest_cost_def calculate_schedule_def
      sort_values_Nil assign_dates_def calculate_cumulative_metrics_empty)

theorem empty_working_set_fails_witness:
  "argsort_contract (stable_argsort :: timestamp list \<Rightarrow> nat list) \<and>
   argsort_contract (stable_argsort :: rat list \<Rightarrow> nat list) \<and>
   data (init []) = [] \<and>
   sequence_by_start_date stable_argsort (init []) = Inl ValueError \<and>
   sequence_by_lowest_cost stable_argsort stable_argsort (init []) = Inl ValueError"
proof -
  have d: "data (init []) = []"
    by (simp add: init_def)
  have c1: "argsort_contract (stable_argsort :: timestamp list \<Rightarrow> nat list)"
    by (rule stable_argsort_contract)
  have c2: "argsort_contract (stable_argsort :: rat list \<Rightarrow> nat list)"
    by (rule stable_argsort_contract)
  from empty_working_set_fails[OF c1 c2 d] c1 c2 d
  show ?thesis by simp
qed



section \<open>Milestones\<close>

text \<open>
  A milestone is read at the index that \<^verbatim>\<open>idxmax\<close> returns for the column of
  comparisons: the first row that reaches the threshold when there is one, and row 0
  when there is none, since then every entry of the column is the maximum.
\<close>

lemma idxmax_first:
  assumes "k < length s" and "s ! k" and "\<forall>j < k. \<not> s ! j"
  shows "idxmax s = Inr k"
proof -
  from assms(1,2) have mem: "True \<in> set s"
    using nth_mem[of k s] by simp
  from assms have "takeWhile (\<lambda>b. \<not> b) s = take k s"
    by (intro takeWhile_eq_take_P_nth) simp_all
  with assms(1) mem show ?thesis
    by (auto simp: idxmax_def)
qed

lemma idxmax_none:
  assumes "s \<noteq> []" and "True \<notin> set s"
  shows "idxmax s = Inr 0"
  using assms by (simp add: idxmax_def)

lemma milestone_first_crossing:
  assumes "k < length result" and "tot * m \<le> Cumulative_Miles (result ! k)"
    and "\<forall>j < k. Cumulative_Miles (result ! j) < tot * m"
  shows "milestone_loop result tot [m] =
     Inr [\<lparr>percent = \<lfloor>m * 100\<rfloor>, Day = Some (Actual_End (result ! k)),
           Cost = Some (Cumulative_Cost (result ! k))\<rparr>]"
proof -
  have "idxmax (map (\<lambda>r. tot * m \<le> Cumulative_Miles r) result) = Inr k"
    using assms by (intro idxmax_first) (simp_all add: not_le)
  with assms(1) show ?thesis
    by (simp add: Let_def)
qed

lemma milestone_without_crossing:
  assumes "result \<noteq> []" and "\<forall>r \<in> set result. Cumulative_Miles r < tot * m"
  shows "milestone_loop result tot [m] =
     Inr [\<lparr>percent = \<lfloor>m * 100\<rfloor>, Day = Some (Actual_End (result ! 0)),
           Cost = Some (Cumulative_Cost (result ! 0))\<rparr>]"
proof -
  have "idxmax (map (\<lambda>r. tot * m \<le> Cumulative_Miles r) result) = Inr 0"
    using assms by (intro idxmax_none) (auto simp: not_le)
  with assms(1) show ?thesis
    by (simp add: Let_def)
qed

text \<open>
  Claim C5, evaluated where it fails. The schedule has one segment of distance \<open>-1\<close>, so
  the total is \<open>-1\<close> and the threshold of the 50 percent milestone is \<open>-1/2\<close>. The only
  cumulative distance, \<open>-1\<close>, is below it: no segment reaches the threshold. The source
  still records the day and cost of row 0 for the milestone; its branch for an absent
  milestone is never taken.
\<close>

theorem milestone_recorded_without_crossing:
  "map Cumulative_Miles (add_cumulative negative_distance_schedule) = [- 1] \<and>
   sum_list (map Miles (add_cumulative negative_distance_schedule)) * (1 / 2) = - 1 / 2 \<and>
   calculate_cumulative_metrics stable_argsort negative_distance_schedule =
     Inr \<lparr>rows = add_cumulative negative_distance_schedule,
          milestones =
            [\<lparr>percent = 50, Day = Some (timedelta 3), Cost = Some 5\<rparr>,
             \<lparr>percent = 75, Day = Some (timedelta 3), Cost = Some 5\<rparr>,
             \<lparr>percent = 100, Day = Some (timedelta 3), Cost = Some 5\<rparr>]\<rparr>"
  by code_simp

section \<open>\<^verbatim>\<open>apply_parameters\<close>\<close>


lemma apply_parameters_original:
  "original_data (snd (apply_parameters off pm ct self)) = original_data self"
  by (simp add: apply_parameters_def apply_cost_threshold_def Let_def split: option.split)

lemma apply_parameters_cong:
  assumes "original_data self = original_data self'"
  shows "apply_parameters off pm ct self = apply_parameters off pm ct self'"
proof -
  from assms have "self\<lparr>data := original_data self\<rparr> = self'\<lparr>data := original_data self'\<rparr>"
    by (cases self, cases self') simp
  then show ?thesis
    unfolding apply_parameters_def Let_def by simp
qed

text \<open>
  Claim C10. With the default parameters the working set becomes the original data.
  Every call leaves the original data as it was and computes from it alone, so a call
  after another call gives what it gives on a fresh object.
\<close>

theorem apply_parameters_rebuilds_from_original:
  "apply_parameters 0 1 None self = (Inr (), self\<lparr>data := original_data self\<rparr>) \<and>
   original_data (snd (apply_parameters off pm ct self)) = original_data self \<and>
   apply_parameters off' pm' ct' (snd (apply_parameters off pm ct self)) =
     apply_parameters off' pm' ct' self"
proof (intro conjI)
  show "apply_parameters 0 1 None self = (Inr (), self\<lparr>data := original_data self\<rparr>)"
    by (simp add: apply_parameters_def apply_cost_threshold_def)
  show "original_data (snd (apply_parameters off pm ct self)) = original_data self"
    by (rule apply_parameters_original)
  show "apply_parameters off' pm' ct' (snd (apply_parameters off pm ct self)) =
     apply_parameters off' pm' ct' self"
    by (rule apply_parameters_cong) (rule apply_parameters_original)
qed



lemma spec_adjust_segment_cost: "Segment_Cost (spec_adjust_segment off pm s) = Segment_Cost s"
  by (simp add: spec_adjust_segment_def Let_def)







section \<open>Early efficiency\<close>

text \<open>
  For fewer than four rows the slice of the first quarter is empty, both sums are 0 and
  the quotient is the floating-point value of 0 / 0.
\<close>

lemma early_efficiency_short:
  assumes "length method < 4"
  shows "early_efficiency method = NaN"
  using assms by (simp add: early_efficiency_def float_div_def)

text \<open>
  Claim C8, evaluated where it fails: the schedule of the three segments of the example.
  The metric is computed as 0 / 0.
\<close>

theorem early_efficiency_divides_by_zero:
  "length example_schedule = 3 \<and>
   take (length example_schedule div 4) example_schedule = [] \<and>
   early_efficiency example_schedule = float_div 0 0 \<and>
   early_efficiency example_schedule = NaN"
  by code_simp

end
